theory Spec2Isabelle
  imports Main "HOL-Library.Word" "HOL-Library.Signed_Division"
begin

section \<open>Machine integers of \<^verbatim>\<open>EbmInternal.h\<close>\<close>

text \<open>
  The header computes with \<^verbatim>\<open>size_t\<close> and \<^verbatim>\<open>ptrdiff_t\<close>. The model is the 64-bit build:
  \<^verbatim>\<open>size_t\<close> is a 64-bit word, so \<open>+\<close>, \<open>-\<close> and \<open>*\<close> wrap around as unsigned
  arithmetic does in C++. A \<^verbatim>\<open>ptrdiff_t\<close> is an \<open>int\<close>; the functions on it only compare,
  divide a small constant and add one, so no intermediate value leaves the 64-bit range
  for an argument inside it. Division by zero is undefined behaviour in C++ and is the
  value \<open>None\<close> here, so every division of the source is a branch of the model.
\<close>

type_synonym size_t = "64 word"
type_synonym ptrdiff_t = int

definition size_t_max :: size_t where
  \<comment> \<open>\<^verbatim>\<open>std::numeric_limits<size_t>::max()\<close>\<close>
  "size_t_max = - 1"

definition checked_div :: "size_t \<Rightarrow> size_t \<Rightarrow> size_t option" where
  \<comment> \<open>\<^verbatim>\<open>a / b\<close> on \<^verbatim>\<open>size_t\<close>\<close>
  "checked_div a b = (if b = 0 then None else Some (a div b))"

definition checked_sdiv :: "ptrdiff_t \<Rightarrow> ptrdiff_t \<Rightarrow> ptrdiff_t option" where
  \<comment> \<open>\<^verbatim>\<open>a / b\<close> on \<^verbatim>\<open>ptrdiff_t\<close>: the quotient is truncated towards zero\<close>
  "checked_sdiv a b = (if b = 0 then None else Some (a sdiv b))"

definition static_cast_size_t :: "ptrdiff_t \<Rightarrow> size_t" where
  \<comment> \<open>\<^verbatim>\<open>static_cast<size_t>(x)\<close>: the value modulo \<open>2 ^ 64\<close>\<close>
  "static_cast_size_t x = word_of_int x"

section \<open>Overflow checks\<close>

text \<open>
  \<^verbatim>\<open>return 0 != num1 && ((std::numeric_limits<size_t>::max() - num1 + 1) / num1 < num2);\<close>
  The right operand of \<^verbatim>\<open>&&\<close> is evaluated only when the left one holds.
\<close>

definition IsMultiplyError :: "size_t \<Rightarrow> size_t \<Rightarrow> bool option" where
  "IsMultiplyError num1 num2 =
     (if 0 \<noteq> num1
      then map_option (\<lambda>q. q < num2) (checked_div (size_t_max - num1 + 1) num1)
      else Some False)"

text \<open>\<^verbatim>\<open>return num1 + num2 < num1;\<close>\<close>

definition IsAddError :: "size_t \<Rightarrow> size_t \<Rightarrow> bool" where
  "IsAddError num1 num2 = (num1 + num2 < num1)"

section \<open>Allocation\<close>

text \<open>
  A pointer returned by an allocation is \<open>nullptr\<close> or the address of a block. The C
  library's \<^verbatim>\<open>malloc\<close> is a parameter of the model: any function from the requested byte
  count to a pointer, \<open>nullptr\<close> when it is out of memory. The functions are \<^verbatim>\<open>noexcept\<close>
  and contain no \<^verbatim>\<open>throw\<close>; the only way they could fail to return is the division inside
  \<^verbatim>\<open>IsMultiplyError\<close>, so their result is an \<open>option\<close> whose \<open>None\<close> is that fault.
\<close>

datatype 'p pointer = nullptr | Pointer 'p

text \<open>
  \<^verbatim>\<open>EbmMalloc<T>(cItems, cBytesPerItem)\<close>:
  \<^verbatim>\<open>if(IsMultiplyError(cItems, cBytesPerItem)) return nullptr;\<close>
  \<^verbatim>\<open>else { const size_t cBytes = cItems * cBytesPerItem; return malloc(cBytes); }\<close>
\<close>

definition EbmMalloc_items_bytes ::
  "(size_t \<Rightarrow> 'p pointer) \<Rightarrow> size_t \<Rightarrow> size_t \<Rightarrow> 'p pointer option" where
  "EbmMalloc_items_bytes malloc cItems cBytesPerItem =
     (case IsMultiplyError cItems cBytesPerItem of
        None \<Rightarrow> None
      | Some True \<Rightarrow> Some nullptr
      | Some False \<Rightarrow> (let cBytes = cItems * cBytesPerItem in Some (malloc cBytes)))"

text \<open>
  \<^verbatim>\<open>EbmMalloc<T>(cItems)\<close>, where \<^verbatim>\<open>cBytesPerItem\<close> is \<^verbatim>\<open>sizeof(T)\<close> (of \<^verbatim>\<open>char\<close> when \<^verbatim>\<open>T\<close> is
  \<^verbatim>\<open>void\<close>), a parameter here. The source asserts \<^verbatim>\<open>0 < cBytesPerItem\<close> statically. A
  one-byte item is allocated without the multiplication check.
\<close>

definition EbmMalloc_items ::
  "(size_t \<Rightarrow> 'p pointer) \<Rightarrow> size_t \<Rightarrow> size_t \<Rightarrow> 'p pointer option" where
  "EbmMalloc_items malloc cBytesPerItem cItems =
     (let bOneByte = (1 = cBytesPerItem) in
      if bOneByte then (let cBytes = cItems in Some (malloc cBytes))
      else (case IsMultiplyError cItems cBytesPerItem of
              None \<Rightarrow> None
            | Some True \<Rightarrow> Some nullptr
            | Some False \<Rightarrow> (let cBytes = cItems * cBytesPerItem in Some (malloc cBytes))))"

text \<open>\<^verbatim>\<open>EbmMalloc<T>()\<close>: \<^verbatim>\<open>malloc(sizeof(T))\<close>.\<close>

definition EbmMalloc_one :: "(size_t \<Rightarrow> 'p pointer) \<Rightarrow> size_t \<Rightarrow> 'p pointer" where
  "EbmMalloc_one malloc sizeof_T = malloc sizeof_T"

section \<open>Task descriptors\<close>

text \<open>
  A learning task is a \<^verbatim>\<open>ptrdiff_t\<close>: \<^verbatim>\<open>k_regression\<close> for regression,
  \<^verbatim>\<open>k_dynamicClassification\<close> for a classification whose class count is known at run time
  only, and a positive number of classes otherwise. \<^verbatim>\<open>EXPAND_BINARY_LOGITS\<close> is a macro of the
  build; it is the first argument of the functions whose body it selects.
\<close>

definition k_regression :: ptrdiff_t where
  "k_regression = - 1"

definition k_dynamicClassification :: ptrdiff_t where
  "k_dynamicClassification = 0"

definition k_oneScore :: ptrdiff_t where
  "k_oneScore = 1"

definition IsRegression :: "ptrdiff_t \<Rightarrow> bool" where
  "IsRegression learningTypeOrCountTargetClasses =
     (k_regression = learningTypeOrCountTargetClasses)"

definition IsClassification :: "ptrdiff_t \<Rightarrow> bool" where
  "IsClassification learningTypeOrCountTargetClasses =
     (0 \<le> learningTypeOrCountTargetClasses)"

definition IsBinaryClassification :: "bool \<Rightarrow> ptrdiff_t \<Rightarrow> bool" where
  "IsBinaryClassification EXPAND_BINARY_LOGITS learningTypeOrCountTargetClasses =
     (if EXPAND_BINARY_LOGITS then False
      else 2 = learningTypeOrCountTargetClasses)"

definition IsMulticlass :: "bool \<Rightarrow> ptrdiff_t \<Rightarrow> bool" where
  "IsMulticlass EXPAND_BINARY_LOGITS learningTypeOrCountTargetClasses =
     (IsClassification learningTypeOrCountTargetClasses
      \<and> \<not> IsBinaryClassification EXPAND_BINARY_LOGITS learningTypeOrCountTargetClasses)"

definition GetVectorLength :: "bool \<Rightarrow> ptrdiff_t \<Rightarrow> size_t" where
  "GetVectorLength EXPAND_BINARY_LOGITS learningTypeOrCountTargetClasses =
     (if EXPAND_BINARY_LOGITS
      then (if learningTypeOrCountTargetClasses \<le> 1 then 1
            else static_cast_size_t learningTypeOrCountTargetClasses)
      else (if learningTypeOrCountTargetClasses \<le> 2 then 1
            else static_cast_size_t learningTypeOrCountTargetClasses))"

section \<open>Integer types\<close>

text \<open>
  An integer type of C++ by what the header asks of \<^verbatim>\<open>std::numeric_limits\<close>: whether it is
  signed, and its width in bits. A value of such a type is the \<open>int\<close> it denotes.
\<close>

datatype integral = Integral (is_signed: bool) (width: nat)

definition numeric_limits_lowest :: "integral \<Rightarrow> int" where
  "numeric_limits_lowest T = (if is_signed T then - (2 ^ (width T - 1)) else 0)"

definition numeric_limits_max :: "integral \<Rightarrow> int" where
  "numeric_limits_max T = (if is_signed T then 2 ^ (width T - 1) - 1 else 2 ^ width T - 1)"

definition size_t_type :: integral where
  "size_t_type = Integral False 64"

text \<open>
  \<^verbatim>\<open>IsNumberConvertable\<close> compares values of different integer types with \<^verbatim>\<open><=\<close>. C++
  first brings both operands to a common type (the usual arithmetic conversions): a type
  narrower than \<^verbatim>\<open>int\<close> is promoted to \<^verbatim>\<open>int\<close> (32 bits); of two types of the same
  signedness the wider is taken; of a signed and an unsigned type the unsigned one, unless
  the signed one is wider, which then holds every value of the unsigned one. A conversion
  to an unsigned type is modulo \<open>2 ^ width\<close>; a conversion to a signed type of a value
  outside its range is not value preserving (implementation-defined before C++20) and is
  \<open>None\<close> here, so that a result \<open>Some b\<close> says that the check was evaluated on the values
  themselves.
\<close>

definition representable :: "integral \<Rightarrow> int \<Rightarrow> bool" where
  "representable T x = (numeric_limits_lowest T \<le> x \<and> x \<le> numeric_limits_max T)"

definition int_type :: integral where
  "int_type = Integral True 32"

definition integral_promotion :: "integral \<Rightarrow> integral" where
  "integral_promotion T = (if width T < width int_type then int_type else T)"

definition usual_arithmetic_conversions :: "integral \<Rightarrow> integral \<Rightarrow> integral" where
  "usual_arithmetic_conversions A B =
     (let A' = integral_promotion A; B' = integral_promotion B in
      if is_signed A' = is_signed B' then (if width A' < width B' then B' else A')
      else (let U = (if is_signed A' then B' else A'); S = (if is_signed A' then A' else B') in
            if width S \<le> width U then U else S))"

definition convert :: "integral \<Rightarrow> int \<Rightarrow> int option" where
  "convert T x =
     (if is_signed T then (if representable T x then Some x else None)
      else Some (x mod 2 ^ width T))"

definition less_eq_cpp :: "integral \<Rightarrow> int \<Rightarrow> integral \<Rightarrow> int \<Rightarrow> bool option" where
  "less_eq_cpp A a B b =
     (let C = usual_arithmetic_conversions A B in
      case convert C a of
        None \<Rightarrow> None
      | Some a' \<Rightarrow> (case convert C b of None \<Rightarrow> None | Some b' \<Rightarrow> Some (a' \<le> b')))"

text \<open>\<^verbatim>\<open>l && r\<close>: the right operand is evaluated only when the left one is true.\<close>

definition and_then :: "bool option \<Rightarrow> bool option \<Rightarrow> bool option" where
  "and_then l r = (case l of None \<Rightarrow> None | Some False \<Rightarrow> Some False | Some True \<Rightarrow> r)"

text \<open>
  \<^verbatim>\<open>return std::numeric_limits<TTo>::is_signed ?\<close>
  \<^verbatim>\<open>  (std::numeric_limits<TFrom>::is_signed ?\<close>
  \<^verbatim>\<open>    (std::numeric_limits<TTo>::lowest() <= number && number <= std::numeric_limits<TTo>::max())\<close>
  \<^verbatim>\<open>    : (number <= std::numeric_limits<TTo>::max()))\<close>
  \<^verbatim>\<open>  : (std::numeric_limits<TFrom>::is_signed ?\<close>
  \<^verbatim>\<open>    (0 <= number && number <= std::numeric_limits<TTo>::max())\<close>
  \<^verbatim>\<open>    : (number <= std::numeric_limits<TTo>::max()));\<close>
  The literal \<^verbatim>\<open>0\<close> is an \<^verbatim>\<open>int\<close>.
\<close>

definition IsNumberConvertable :: "integral \<Rightarrow> integral \<Rightarrow> int \<Rightarrow> bool option" where
  "IsNumberConvertable TTo TFrom number =
     (if is_signed TTo
      then (if is_signed TFrom
            then and_then (less_eq_cpp TTo (numeric_limits_lowest TTo) TFrom number)
                          (less_eq_cpp TFrom number TTo (numeric_limits_max TTo))
            else less_eq_cpp TFrom number TTo (numeric_limits_max TTo))
      else (if is_signed TFrom
            then and_then (less_eq_cpp int_type 0 TFrom number)
                          (less_eq_cpp TFrom number TTo (numeric_limits_max TTo))
            else less_eq_cpp TFrom number TTo (numeric_limits_max TTo)))"

text \<open>The integer types of 8, 16, 32 and 64 bits.\<close>

definition standard_integral :: "integral \<Rightarrow> bool" where
  "standard_integral T = (width T = 8 \<or> width T = 16 \<or> width T = 32 \<or> width T = 64)"

section \<open>Bit-pack geometry\<close>

text \<open>
  \<^verbatim>\<open>return T { 0 } == maxValue ? size_t { 0 } : size_t { 1 } + CountBitsRequired<T>(maxValue / T { 2 });\<close>
  The template parameter \<^verbatim>\<open>T\<close> is any integer type; \<^verbatim>\<open>maxValue\<close> is the \<open>int\<close> it denotes and
  \<^verbatim>\<open>/\<close> truncates towards zero. The result counts the halvings, at most the width of
  \<^verbatim>\<open>T\<close>, so the \<^verbatim>\<open>size_t\<close> addition does not wrap and the result is a \<open>nat\<close>. The recursion
  is well-founded: \<open>\<bar>maxValue / 2\<bar> < \<bar>maxValue\<bar>\<close> unless \<open>maxValue = 0\<close>.
\<close>

function CountBitsRequired :: "int \<Rightarrow> nat" where
  "CountBitsRequired maxValue =
     (if 0 = maxValue then 0 else 1 + CountBitsRequired (maxValue sdiv 2))"
  by pat_completeness auto
termination
proof (relation "measure (\<lambda>maxValue. nat \<bar>maxValue\<bar>)")
  show "wf (measure (\<lambda>maxValue. nat \<bar>maxValue\<bar>))" by simp
next
  fix maxValue :: int
  assume "0 \<noteq> maxValue"
  then have "\<bar>maxValue sdiv 2\<bar> < \<bar>maxValue\<bar>"
    by (simp add: signed_divide_int_def abs_mult abs_sgn_eq) 
  then show "(maxValue sdiv 2, maxValue) \<in> measure (\<lambda>maxValue. nat \<bar>maxValue\<bar>)"
    by simp
qed

text \<open>\<^verbatim>\<open>return CountBitsRequired(std::numeric_limits<T>::max());\<close>\<close>

definition CountBitsRequiredPositiveMax :: "integral \<Rightarrow> nat" where
  "CountBitsRequiredPositiveMax T = CountBitsRequired (numeric_limits_max T)"

definition k_cBitsForSizeT :: nat where
  "k_cBitsForSizeT = CountBitsRequiredPositiveMax size_t_type"

definition k_cDimensionsMax :: nat where
  "k_cDimensionsMax = k_cBitsForSizeT - 1"

text \<open>\<^verbatim>\<open>typedef size_t StorageDataType;\<close>\<close>

definition k_cBitsForStorageType :: nat where
  "k_cBitsForStorageType = CountBitsRequiredPositiveMax size_t_type"

text \<open>\<^verbatim>\<open>return k_cBitsForStorageType / cItemsBitPacked;\<close>\<close>

definition GetCountBits :: "size_t \<Rightarrow> size_t option" where
  "GetCountBits cItemsBitPacked = checked_div (of_nat k_cBitsForStorageType) cItemsBitPacked"

definition k_cItemsPerBitPackDynamic :: size_t where "k_cItemsPerBitPackDynamic = 0"
definition k_cItemsPerBitPackMax :: size_t where "k_cItemsPerBitPackMax = 0"
definition k_cItemsPerBitPackMin :: size_t where "k_cItemsPerBitPackMin = 0"

text \<open>
  \<^verbatim>\<open>return k_cItemsPerBitPackMin == cItemsBitPackedPrev ?\<close>
  \<^verbatim>\<open>   k_cItemsPerBitPackDynamic : k_cBitsForStorageType / ((k_cBitsForStorageType / cItemsBitPackedPrev) + 1);\<close>
\<close>

definition GetNextCountItemsBitPacked :: "size_t \<Rightarrow> size_t option" where
  "GetNextCountItemsBitPacked cItemsBitPackedPrev =
     (if k_cItemsPerBitPackMin = cItemsBitPackedPrev then Some k_cItemsPerBitPackDynamic
      else Option.bind (checked_div (of_nat k_cBitsForStorageType) cItemsBitPackedPrev)
             (\<lambda>q. checked_div (of_nat k_cBitsForStorageType) (q + 1)))"

definition k_cItemsPerBitPackNone :: ptrdiff_t where "k_cItemsPerBitPackNone = - 1"
definition k_cItemsPerBitPackDynamic2 :: ptrdiff_t where "k_cItemsPerBitPackDynamic2 = 0"
definition k_cItemsPerBitPackMax2 :: ptrdiff_t where
  "k_cItemsPerBitPackMax2 = int k_cBitsForStorageType"
definition k_cItemsPerBitPackMin2 :: ptrdiff_t where "k_cItemsPerBitPackMin2 = 1"
definition k_cItemsPerBitPackLast :: ptrdiff_t where
  "k_cItemsPerBitPackLast =
     (if int k_cBitsForStorageType = k_cItemsPerBitPackMax2 \<and> 1 = k_cItemsPerBitPackMin2
      then 1 else k_cItemsPerBitPackDynamic2)"

text \<open>
  \<^verbatim>\<open>return k_cItemsPerBitPackMin2 == cItemsBitPackedPrev ? k_cItemsPerBitPackDynamic2 :\<close>
  \<^verbatim>\<open>   ptrdiff_t { k_cBitsForStorageType } / ((ptrdiff_t { k_cBitsForStorageType } / cItemsBitPackedPrev) + 1);\<close>
\<close>

definition GetNextBitPack :: "ptrdiff_t \<Rightarrow> ptrdiff_t option" where
  "GetNextBitPack cItemsBitPackedPrev =
     (if k_cItemsPerBitPackMin2 = cItemsBitPackedPrev then Some k_cItemsPerBitPackDynamic2
      else Option.bind (checked_sdiv (int k_cBitsForStorageType) cItemsBitPackedPrev)
             (\<lambda>q. checked_sdiv (int k_cBitsForStorageType) (q + 1)))"

text \<open>
  The recursive equations are unfolded by hand in the proofs below. The facts up to the
  two chains are what their termination needs: each step of \<^verbatim>\<open>GetNextBitPack\<close> and of
  \<^verbatim>\<open>GetNextCountItemsBitPacked\<close> from a positive value yields a smaller one.
\<close>

declare CountBitsRequired.simps [simp del]

lemma CountBitsRequired_0 [simp]: "CountBitsRequired 0 = 0"
  by (subst CountBitsRequired.simps) simp

lemma k_cBitsForStorageType_eq: "k_cBitsForStorageType = 64"
  unfolding k_cBitsForStorageType_def CountBitsRequiredPositiveMax_def size_t_type_def
    numeric_limits_max_def
  by code_simp

lemma sdiv_nonneg: "0 \<le> a \<Longrightarrow> 0 \<le> b \<Longrightarrow> a sdiv b = a div (b :: int)"
  by (auto simp: signed_divide_int_def sgn_if)

lemma int_div_less:
  fixes W d c :: int
  assumes "0 < d" and "W < c * d"
  shows "W div d < c"
proof (rule ccontr)
  assume "\<not> W div d < c"
  then have "c * d \<le> (W div d) * d" using assms(1) by (simp add: mult_right_mono)
  also have "\<dots> = W - W mod d" by (simp add: minus_mod_eq_div_mult)
  also have "\<dots> \<le> W" using assms(1) by simp
  finally show False using assms(2) by simp
qed

lemma next_smaller:
  fixes W c :: int
  assumes "0 \<le> W" "0 < c"
  shows "W div (W div c + 1) < c"
proof -
  have q: "0 \<le> W div c" using assms by (simp add: pos_imp_zdiv_nonneg_iff)
  have eq: "c * (W div c) + W mod c = W" by (rule mult_div_mod_eq)
  have lt: "W mod c < c" using assms by simp
  have "c * (W div c + 1) = c * (W div c) + c" by (simp add: algebra_simps)
  with eq lt have "W < c * (W div c + 1)" by linarith
  with q show ?thesis by (intro int_div_less) simp_all
qed

lemma GetNextBitPack_less:
  assumes "0 < c" "GetNextBitPack c = Some n"
  shows "n < c \<and> 0 \<le> n"
proof (cases "c = 1")
  case True
  with assms show ?thesis
    by (simp add: GetNextBitPack_def k_cItemsPerBitPackMin2_def k_cItemsPerBitPackDynamic2_def)
next
  case False
  let ?W = "int k_cBitsForStorageType"
  have W: "0 \<le> ?W" by simp
  have q: "0 \<le> ?W div c" using assms(1) by (simp add: pos_imp_zdiv_nonneg_iff)
  have "n = ?W div (?W div c + 1)"
    using assms False q
    by (simp add: GetNextBitPack_def k_cItemsPerBitPackMin2_def checked_sdiv_def sdiv_nonneg
        split: if_splits)
  then show ?thesis using next_smaller [OF W assms(1)] q
    by (simp add: pos_imp_zdiv_nonneg_iff)
qed

text \<open>
  The chain of bit packs: \<^verbatim>\<open>GetNextBitPack\<close> applied again and again. The source says
  of it "this function should also never see the dynamic value 0 because we should
  terminate the chain at that point"; \<open>BitPackProgression\<close> lists the values visited from a
  start until the dynamic value. It also stops at a negative value and at a division by
  zero, which a chain from a positive start never meets (\<open>GetNextBitPack_positive\<close> below).
\<close>

function BitPackProgression :: "ptrdiff_t \<Rightarrow> ptrdiff_t list" where
  "BitPackProgression cItemsBitPacked =
     (if cItemsBitPacked \<le> k_cItemsPerBitPackDynamic2 then []
      else cItemsBitPacked #
        (case GetNextBitPack cItemsBitPacked of
           None \<Rightarrow> []
         | Some cItemsBitPackedNext \<Rightarrow> BitPackProgression cItemsBitPackedNext))"
  by pat_completeness auto
termination
proof (relation "measure nat")
  show "wf (measure nat)" by simp
next
  fix c n :: int
  assume "\<not> c \<le> k_cItemsPerBitPackDynamic2" and "GetNextBitPack c = Some n"
  then show "(n, c) \<in> measure nat"
    using GetNextBitPack_less [of c n] by (simp add: k_cItemsPerBitPackDynamic2_def)
qed

declare BitPackProgression.simps [simp del]

text \<open>
  The same chain for the \<^verbatim>\<open>size_t\<close> variant, \<^verbatim>\<open>GetNextCountItemsBitPacked\<close>, from the word
  width down to its dynamic value.
\<close>

lemma unat_storage_bits: "unat (of_nat k_cBitsForStorageType :: size_t) = 64"
  by (simp add: k_cBitsForStorageType_eq)

lemma GetNextCountItemsBitPacked_unat:
  assumes "c \<noteq> 0"
  shows "\<exists>n. GetNextCountItemsBitPacked c = Some n \<and> unat n = 64 div (64 div unat c + 1)"
proof -
  let ?W = "of_nat k_cBitsForStorageType :: size_t"
  let ?q = "?W div c"
  have q: "unat ?q = 64 div unat c" by (simp add: unat_div unat_storage_bits)
  have "64 div unat c \<le> 64" by simp
  then have "64 div unat c + 1 < (18446744073709551616 :: nat)" by linarith
  then have "unat ?q + unat (1 :: size_t) < 2 ^ 64" by (simp add: q)
  then have q1: "unat (?q + 1) = 64 div unat c + 1"
    by (simp add: unat_add_lem [THEN iffD1] q)
  have nz: "?q + 1 \<noteq> 0"
  proof
    assume "?q + 1 = 0"
    then have "unat (?q + 1) = 0" by simp
    with q1 show False by simp
  qed
  have "unat (?W div (?q + 1)) = 64 div (64 div unat c + 1)"
    by (simp only: unat_div unat_storage_bits q1)
  with nz assms show ?thesis
    by (simp add: GetNextCountItemsBitPacked_def checked_div_def k_cItemsPerBitPackMin_def)
qed

lemma GetNextCountItemsBitPacked_less:
  assumes "c \<noteq> 0" and "GetNextCountItemsBitPacked c = Some n"
  shows "unat n < unat c"
proof -
  have pos: "0 < unat c" using assms(1) by (simp add: unat_gt_0)
  have "unat n = 64 div (64 div unat c + 1)"
    using GetNextCountItemsBitPacked_unat [OF assms(1)] assms(2) by auto
  also have "\<dots> < unat c"
  proof -
    have "64 < unat c * (64 div unat c + 1)"
      using dividend_less_div_times [OF pos, of 64] by (simp add: algebra_simps)
    then show ?thesis by (rule less_mult_imp_div_less)
  qed
  finally show ?thesis .
qed

function ItemsBitPackedProgression :: "size_t \<Rightarrow> size_t list" where
  "ItemsBitPackedProgression cItemsBitPacked =
     (if cItemsBitPacked = k_cItemsPerBitPackDynamic then []
      else cItemsBitPacked #
        (case GetNextCountItemsBitPacked cItemsBitPacked of
           None \<Rightarrow> []
         | Some cItemsBitPackedNext \<Rightarrow> ItemsBitPackedProgression cItemsBitPackedNext))"
  by pat_completeness auto
termination
proof (relation "measure unat")
  show "wf (measure unat)" by simp
next
  fix c n :: size_t
  assume "c \<noteq> k_cItemsPerBitPackDynamic" and "GetNextCountItemsBitPacked c = Some n"
  then show "(n, c) \<in> measure unat"
    using GetNextCountItemsBitPacked_less [of c n] by (simp add: k_cItemsPerBitPackDynamic_def)
qed

declare ItemsBitPackedProgression.simps [simp del]

section \<open>C strings\<close>

text \<open>
  A \<^verbatim>\<open>const char *\<close> is the list of the bytes stored from the pointer on; \<^verbatim>\<open>*s\<close> is the
  first of them and \<^verbatim>\<open>++s\<close> drops it. The byte after the last one of the list is the
  terminating NUL, and a NUL inside the list ends the C string there, as the loops of the
  source see it. A returned pointer is the rest of the main string from the position it
  points to; \<open>None\<close> is \<^verbatim>\<open>nullptr\<close>. The comparisons of a \<^verbatim>\<open>char\<close> with \<^verbatim>\<open>0x20\<close>, \<^verbatim>\<open>0x9\<close>,
  \<^verbatim>\<open>0xd\<close>, \<^verbatim>\<open>'A'\<close> and \<^verbatim>\<open>'Z'\<close> have the same result whether \<^verbatim>\<open>char\<close> is signed or not, so
  a character is compared by its code.
\<close>

definition NUL :: char where
  "NUL = CHR 0x00"

definition deref :: "string \<Rightarrow> char" where
  "deref s = (case s of [] \<Rightarrow> NUL | c # _ \<Rightarrow> c)"

text \<open>\<^verbatim>\<open>0x20 == oneChar || 0x9 <= oneChar && oneChar <= 0xd\<close>\<close>

definition is_whitespace :: "char \<Rightarrow> bool" where
  "is_whitespace oneChar =
     (0x20 = (of_char oneChar :: nat)
      \<or> 0x9 \<le> (of_char oneChar :: nat) \<and> (of_char oneChar :: nat) \<le> 0xd)"

text \<open>
  \<^verbatim>\<open>char oneChar = *s;\<close>
  \<^verbatim>\<open>while(0x20 == oneChar || 0x9 <= oneChar && oneChar <= 0xd) { ++s; oneChar = *s; }\<close>
  \<^verbatim>\<open>return s;\<close>
  The loop ends at the end of the list, where \<^verbatim>\<open>*s\<close> is NUL.
\<close>

fun SkipWhitespace :: "string \<Rightarrow> string" where
  "SkipWhitespace [] = []"
| "SkipWhitespace (oneChar # s) =
     (if is_whitespace oneChar then SkipWhitespace s else oneChar # s)"

text \<open>\<^verbatim>\<open>if('A' <= mainChar && mainChar <= 'Z') { mainChar += 'a' - 'A'; }\<close>\<close>

definition to_lower :: "char \<Rightarrow> char" where
  "to_lower c =
     (if (of_char CHR ''A'' :: nat) \<le> of_char c \<and> (of_char c :: nat) \<le> of_char CHR ''Z''
      then char_of ((of_char c :: nat) + (of_char CHR ''a'' - of_char CHR ''A''))
      else c)"

text \<open>
  The middle loop of \<^verbatim>\<open>IsStringEqualsCaseInsensitive\<close>:
  \<^verbatim>\<open>while(0 != labelChar) {\<close>
  \<^verbatim>\<open>  (both characters to lower case)\<close>
  \<^verbatim>\<open>  if(mainChar != labelChar) { return nullptr; }\<close>
  \<^verbatim>\<open>  ++sMain; ++sLabel; mainChar = *sMain; labelChar = *sLabel;\<close>
  \<^verbatim>\<open>}\<close>
\<close>

fun CompareLabel :: "string \<Rightarrow> string \<Rightarrow> string option" where
  "CompareLabel sMain [] = Some sMain"
| "CompareLabel sMain (labelChar # sLabel) =
     (if labelChar = NUL then Some sMain
      else if to_lower (deref sMain) \<noteq> to_lower labelChar then None
      else CompareLabel (tl sMain) sLabel)"

text \<open>
  \<^verbatim>\<open>IsStringEqualsCaseInsensitive\<close> skips the whitespace of \<^verbatim>\<open>sMain\<close> with the loop of
  \<^verbatim>\<open>SkipWhitespace\<close> written out, compares, and skips whitespace again.
\<close>

definition IsStringEqualsCaseInsensitive :: "string \<Rightarrow> string \<Rightarrow> string option" where
  "IsStringEqualsCaseInsensitive sMain sLabel =
     map_option SkipWhitespace (CompareLabel (SkipWhitespace sMain) sLabel)"

text \<open>The characters of the C string at a pointer: those before the first NUL.\<close>

definition c_str :: "string \<Rightarrow> string" where
  "c_str s = takeWhile (\<lambda>c. c \<noteq> CHR 0x00) s"

section \<open>Whitespace and letter case in ASCII\<close>

text \<open>
  What "whitespace" and "equal but for the case of ASCII letters" mean, written down from
  the ASCII table and not from the tests of the source: the whitespace characters are the
  space and the five control characters from the horizontal tab to the carriage return;
  the letters are the 26 of the alphabet, each capital paired with its small letter.
  The statements about \<^verbatim>\<open>IsStringEqualsCaseInsensitive\<close> are made with these; the
  tests of the source are shown below to agree with them.
\<close>

definition ascii_whitespace :: "char set" where
  "ascii_whitespace = {CHR '' '', CHR 0x09, CHR 0x0A, CHR 0x0B, CHR 0x0C, CHR 0x0D}"

definition ascii_upper_case :: string where
  "ascii_upper_case = ''ABCDEFGHIJKLMNOPQRSTUVWXYZ''"

definition ascii_lower_case :: string where
  "ascii_lower_case = ''abcdefghijklmnopqrstuvwxyz''"

text \<open>A capital letter becomes its small letter; every other character stays.\<close>

definition ascii_case_fold :: "char \<Rightarrow> char" where
  "ascii_case_fold c =
     (case map_of (zip ascii_upper_case ascii_lower_case) c of None \<Rightarrow> c | Some l \<Rightarrow> l)"

text \<open>A string without its leading whitespace.\<close>

definition skip_ascii_whitespace :: "string \<Rightarrow> string" where
  "skip_ascii_whitespace s = dropWhile (\<lambda>c. c \<in> ascii_whitespace) s"

text \<open>
  Two strings are equal but for the case of their letters when they have the same length
  and, place by place, the same character once every capital is replaced by its small
  letter.
\<close>

definition equal_ignoring_ascii_case :: "string \<Rightarrow> string \<Rightarrow> bool" where
  "equal_ignoring_ascii_case s t = (map ascii_case_fold s = map ascii_case_fold t)"

section \<open>Properties of the overflow checks\<close>

lemma unat_size_t_max: "unat size_t_max = 2 ^ 64 - 1"
  by (simp add: size_t_max_def unsigned_minus_1_eq_mask mask_eq_exp_minus_1)

lemma unat_size_t_le: "unat (a :: size_t) \<le> 2 ^ 64"
  using unsigned_less [of a, where 'a = nat] by simp

lemma unat_uminus_size_t:
  fixes a :: size_t
  assumes "a \<noteq> 0"
  shows "unat (- a) = 2 ^ 64 - unat a"
proof -
  have pos: "0 < uint a" using assms by (simp add: uint_0_iff less_le)
  have lt: "uint a < 2 ^ 64" using uint_bounded [of a] by simp
  have "uint (- a) = (- uint a) mod 2 ^ 64" by (simp add: uint_word_ariths)
  also have "\<dots> = 2 ^ 64 - uint a"
    using pos lt by (simp add: zmod_zminus1_eq_if)
  finally have eq: "uint (- a) = 2 ^ 64 - uint a" .
  have "int (2 ^ 64 - unat a) = 2 ^ 64 - int (unat a)"
    using unat_size_t_le [of a] by (simp add: of_nat_diff)
  with eq have "int (unat (- a)) = int (2 ^ 64 - unat a)" by simp
  then show ?thesis by (simp only: of_nat_eq_iff)
qed

text \<open>
  What the expression of \<^verbatim>\<open>IsMultiplyError\<close> computes: it never divides by zero, and it
  answers whether \<open>\<lfloor>2 ^ 64 / num1\<rfloor> \<le> num2\<close>.
\<close>

lemma IsMultiplyError_eq:
  "IsMultiplyError a b = Some (a \<noteq> 0 \<and> 2 ^ 64 div unat a \<le> unat b)"
proof (cases "a = 0")
  case True
  then show ?thesis by (simp add: IsMultiplyError_def)
next
  case False
  then have pos: "0 < unat a" by (simp add: unat_gt_0)
  have le: "unat a \<le> 2 ^ 64" by (rule unat_size_t_le)
  have neg: "size_t_max - a + 1 = - a" by (simp add: size_t_max_def)
  have "unat ((size_t_max - a + 1) div a) = (2 ^ 64 - unat a) div unat a"
    by (simp only: neg unat_div unat_uminus_size_t [OF False])
  also have "\<dots> = 2 ^ 64 div unat a - 1"
    using pos le by (simp add: le_div_geq)
  finally have q: "unat ((size_t_max - a + 1) div a) = 2 ^ 64 div unat a - 1" .
  have one: "1 \<le> (2 ^ 64 :: nat) div unat a"
    using pos le by (simp add: div_greater_zero_iff Suc_le_eq)
  have "((size_t_max - a + 1) div a < b) = (2 ^ 64 div unat a \<le> unat b)"
    unfolding word_less_nat_alt q using one by linarith
  then show ?thesis using False by (simp add: IsMultiplyError_def checked_div_def)
qed

text \<open>
  The subtraction and the addition inside the check do not wrap: for \<open>num1 \<noteq> 0\<close> the
  dividend is \<open>2 ^ 64 - num1\<close>, computed exactly.
\<close>

lemma IsMultiplyError_dividend_exact:
  assumes "a \<noteq> 0"
  shows "unat (size_t_max - a) = unat size_t_max - unat a"
    and "unat (size_t_max - a + 1) = unat size_t_max - unat a + 1"
proof -
  have pos: "0 < unat a" using assms by (simp add: unat_gt_0)
  have lt: "unat a < 2 ^ 64" using unsigned_less [of a, where 'a = nat] by simp
  have neg: "size_t_max - a + 1 = - a" by (simp add: size_t_max_def)
  have "unat (size_t_max - a + 1) = 2 ^ 64 - unat a"
    by (simp only: neg unat_uminus_size_t [OF assms])
  with pos lt show "unat (size_t_max - a + 1) = unat size_t_max - unat a + 1"
    by (simp add: unat_size_t_max)
  have "a \<le> size_t_max" by (simp add: size_t_max_def)
  then show "unat (size_t_max - a) = unat size_t_max - unat a"
    by (rule unat_sub)
qed

lemma IsMultiplyError_no_division_by_zero: "IsMultiplyError a b \<noteq> None"
  by (simp add: IsMultiplyError_eq)

text \<open>Every product that overflows is reported.\<close>

lemma IsMultiplyError_overflow:
  assumes "unat size_t_max < unat a * unat b"
  shows "IsMultiplyError a b = Some True"
proof -
  from assms have big: "2 ^ 64 \<le> unat a * unat b" by (simp add: unat_size_t_max)
  then have nz: "a \<noteq> 0" by (auto simp: unat_eq_0 intro: ccontr)
  have "2 ^ 64 div unat a \<le> unat a * unat b div unat a" using big by (rule div_le_mono)
  also have "\<dots> = unat b" using nz by (simp add: unat_eq_0)
  finally show ?thesis using nz by (simp add: IsMultiplyError_eq)
qed

text \<open>The addition check is exact.\<close>

lemma IsAddError_exact: "IsAddError a b \<longleftrightarrow> unat size_t_max < unat a + unat b"
proof -
  have "(a + b < a) = (\<not> a \<le> a + b)" by (simp add: not_le)
  also have "\<dots> = (\<not> unat a + unat b < 2 ^ 64)"
    using no_olen_add_nat [of a b] by simp
  finally show ?thesis by (simp add: IsAddError_def unat_size_t_max) linarith
qed

text \<open>
  Claim C1: \<^verbatim>\<open>IsMultiplyError(a, b)\<close> is true if and only if the exact product \<open>a * b\<close>
  exceeds the largest \<^verbatim>\<open>size_t\<close>, \<^verbatim>\<open>IsAddError(a, b)\<close> is true if and only if the exact
  sum does, and \<^verbatim>\<open>IsMultiplyError\<close> neither divides by zero nor overflows.

  The source's comment derives the expression from
  \<^verbatim>\<open>std::numeric_limits<size_t>::max() + 1 <= num1 * num2\<close> by dividing both sides by
  \<^verbatim>\<open>num1\<close>; with the truncating division of \<^verbatim>\<open>size_t\<close> the two are not equivalent. At
  \<open>num1 = 2 ^ 64 - 1\<close> and \<open>num2 = 1\<close> the product is \<open>2 ^ 64 - 1\<close>, which is representable,
  and the function answers true; the same happens at \<open>num1 = 3\<close> and
  \<open>num2 = \<lfloor>2 ^ 64 / 3\<rfloor>\<close>, whose product is \<open>2 ^ 64 - 1\<close> as well.
\<close>

theorem IsMultiplyError_reports_representable_product:
  "IsMultiplyError size_t_max 1 = Some True
   \<and> unat size_t_max * unat (1 :: size_t) = unat size_t_max
   \<and> IsMultiplyError 3 0x5555555555555555 = Some True
   \<and> unat (3 :: size_t) * unat (0x5555555555555555 :: size_t) = unat size_t_max"
  by (simp add: IsMultiplyError_def checked_div_def unat_size_t_max)
    (simp add: size_t_max_def)

section \<open>Properties of the allocation functions\<close>

lemma EbmMalloc_items_bytes_returns:
  "\<exists>p. EbmMalloc_items_bytes malloc cItems cBytesPerItem = Some p"
  by (simp add: EbmMalloc_items_bytes_def IsMultiplyError_eq Let_def split: bool.split)

lemma EbmMalloc_items_returns:
  "\<exists>p. EbmMalloc_items malloc cBytesPerItem cItems = Some p"
  by (simp add: EbmMalloc_items_def IsMultiplyError_eq Let_def split: bool.split)

text \<open>
  When the check passes, the byte count handed to \<^verbatim>\<open>malloc\<close> is the exact product: the
  multiplication did not wrap.
\<close>

lemma no_error_product_exact:
  assumes "IsMultiplyError a b = Some False"
  shows "unat (a * b) = unat a * unat b"
proof -
  have "\<not> unat size_t_max < unat a * unat b"
    using IsMultiplyError_overflow [of a b] assms by auto
  then have "unat a * unat b < 2 ^ 64" by (simp add: unat_size_t_max)
  then show ?thesis by (simp add: unat_mult_lem [THEN iffD1])
qed

text \<open>
  Claim C3: when the exact product \<open>count * bytesPerItem\<close> exceeds the largest \<^verbatim>\<open>size_t\<close>,
  \<^verbatim>\<open>EbmMalloc\<close> returns the null pointer, whatever \<^verbatim>\<open>malloc\<close> would have answered, and it
  returns (no fault): for the two-argument form, and for the one-argument form whose item
  size is \<^verbatim>\<open>sizeof(T)\<close>.
\<close>

theorem EbmMalloc_overflow_nullptr:
  assumes "unat size_t_max < unat cItems * unat cBytesPerItem"
  shows "EbmMalloc_items_bytes malloc cItems cBytesPerItem = Some nullptr
         \<and> EbmMalloc_items malloc cBytesPerItem cItems = Some nullptr"
proof -
  have err: "IsMultiplyError cItems cBytesPerItem = Some True"
    using assms by (rule IsMultiplyError_overflow)
  have "cBytesPerItem \<noteq> 1"
  proof
    assume "cBytesPerItem = 1"
    with assms have "unat size_t_max < unat cItems" by simp
    moreover have "unat cItems < 2 ^ 64" using unsigned_less [of cItems, where 'a = nat] by simp
    ultimately show False by (simp add: unat_size_t_max)
  qed
  with err show ?thesis
    by (simp add: EbmMalloc_items_bytes_def EbmMalloc_items_def)
qed

theorem EbmMalloc_overflow_nullptr_witness:
  "unat size_t_max < unat (0x8000000000000000 :: size_t) * unat (2 :: size_t)
   \<and> EbmMalloc_items_bytes (\<lambda>cBytes. Pointer cBytes) 0x8000000000000000 2 = Some nullptr
   \<and> EbmMalloc_items (\<lambda>cBytes. Pointer cBytes) 2 0x8000000000000000 = Some nullptr"
proof -
  have h: "unat size_t_max < unat (0x8000000000000000 :: size_t) * unat (2 :: size_t)"
    by (simp add: unat_size_t_max)
  show ?thesis
    using h EbmMalloc_overflow_nullptr [OF h, of "\<lambda>cBytes. Pointer cBytes"] by simp
qed

section \<open>Properties of the task descriptors\<close>

text \<open>A class count above the collapsed ones is returned as it is, for every \<^verbatim>\<open>ptrdiff_t\<close>.\<close>

lemma GetVectorLength_class_count:
  assumes "3 \<le> N" and "N < 2 ^ 63"
  shows "uint (GetVectorLength e N) = N"
proof -
  have "GetVectorLength e N = word_of_int N"
    using assms by (simp add: GetVectorLength_def static_cast_size_t_def)
  moreover have "uint (word_of_int N :: size_t) = N mod 2 ^ 64"
    by (simp add: uint_word_of_int)
  moreover have "N mod 2 ^ 64 = N" using assms by simp
  ultimately show ?thesis by simp
qed

text \<open>
  Claim C7: \<^verbatim>\<open>GetVectorLength\<close> is 1 for the regression descriptor; for the two-class
  descriptor it is 1 in the default build and 2 when \<^verbatim>\<open>EXPAND_BINARY_LOGITS\<close> is defined; for
  every class count \<open>N\<close> from 3 to 10 it is \<open>N\<close>, in both builds.
\<close>

theorem GetVectorLength_table:
  "GetVectorLength e k_regression = 1
   \<and> GetVectorLength False 2 = 1
   \<and> GetVectorLength True 2 = 2
   \<and> (\<forall>N. 3 \<le> N \<and> N \<le> 10 \<longrightarrow>
         GetVectorLength e N = word_of_int N \<and> uint (GetVectorLength e N) = N)"
proof -
  have "GetVectorLength e k_regression = 1"
    by (simp add: GetVectorLength_def k_regression_def)
  moreover have "GetVectorLength False 2 = 1"
    by (simp add: GetVectorLength_def)
  moreover have "GetVectorLength True 2 = 2"
    by (simp add: GetVectorLength_def static_cast_size_t_def)
  moreover have "GetVectorLength e N = word_of_int N \<and> uint (GetVectorLength e N) = N"
    if "3 \<le> N \<and> N \<le> 10" for N
    using that GetVectorLength_class_count [of N e]
    by (simp add: GetVectorLength_def static_cast_size_t_def)
  ultimately show ?thesis by blast
qed

theorem GetVectorLength_table_witness:
  "(3 :: int) \<le> 7 \<and> (7 :: int) \<le> 10
   \<and> GetVectorLength False 7 = 7 \<and> uint (GetVectorLength False 7) = 7
   \<and> GetVectorLength True 7 = 7 \<and> uint (GetVectorLength True 7) = 7
   \<and> GetVectorLength False k_regression = 1 \<and> GetVectorLength True k_regression = 1"
  using GetVectorLength_table [of False] GetVectorLength_table [of True]
  by simp

text \<open>
  Outside the encoding, at a negative value other than \<^verbatim>\<open>k_regression\<close>, none of the
  three predicates holds.
\<close>

lemma no_task_below_k_regression:
  assumes "d < k_regression"
  shows "\<not> IsRegression d \<and> \<not> IsBinaryClassification e d \<and> \<not> IsMulticlass e d"
  using assms
  by (simp add: IsRegression_def IsBinaryClassification_def IsMulticlass_def
      IsClassification_def k_regression_def)

text \<open>
  Claim C8: a task descriptor is the reserved negative value \<^verbatim>\<open>k_regression\<close>, zero
  (\<^verbatim>\<open>k_dynamicClassification\<close>) or a positive class count; for every such value exactly one
  of \<^verbatim>\<open>IsRegression\<close>, \<^verbatim>\<open>IsBinaryClassification\<close> and \<^verbatim>\<open>IsMulticlass\<close> holds, in both builds.
\<close>

theorem exactly_one_task_family:
  assumes "d = k_regression \<or> d = k_dynamicClassification \<or> 0 < d"
  shows "(IsRegression d \<and> \<not> IsBinaryClassification e d \<and> \<not> IsMulticlass e d)
       \<or> (\<not> IsRegression d \<and> IsBinaryClassification e d \<and> \<not> IsMulticlass e d)
       \<or> (\<not> IsRegression d \<and> \<not> IsBinaryClassification e d \<and> IsMulticlass e d)"
proof -
  consider (regression) "d = - 1" | (classification) "0 \<le> d"
    using assms by (auto simp: k_regression_def k_dynamicClassification_def)
  then show ?thesis
  proof cases
    case regression
    then show ?thesis
      by (simp add: IsRegression_def IsBinaryClassification_def IsMulticlass_def
          IsClassification_def k_regression_def)
  next
    case classification
    then have "\<not> IsRegression d" by (simp add: IsRegression_def k_regression_def)
    moreover have "IsMulticlass e d = (\<not> IsBinaryClassification e d)"
      using classification by (simp add: IsMulticlass_def IsClassification_def)
    ultimately show ?thesis by simp
  qed
qed

theorem exactly_one_task_family_witness:
  "IsRegression k_regression \<and> \<not> IsBinaryClassification False k_regression
     \<and> \<not> IsMulticlass False k_regression
   \<and> \<not> IsRegression 2 \<and> IsBinaryClassification False 2 \<and> \<not> IsMulticlass False 2
   \<and> \<not> IsRegression 2 \<and> \<not> IsBinaryClassification True 2 \<and> IsMulticlass True 2
   \<and> \<not> IsRegression k_dynamicClassification
     \<and> \<not> IsBinaryClassification False k_dynamicClassification
     \<and> IsMulticlass False k_dynamicClassification"
proof -
  have r: "k_regression = k_regression \<or> k_regression = k_dynamicClassification
      \<or> 0 < k_regression" by simp
  have b: "(2 :: int) = k_regression \<or> (2 :: int) = k_dynamicClassification \<or> (0 :: int) < 2"
    by simp
  have z: "k_dynamicClassification = k_regression
      \<or> k_dynamicClassification = k_dynamicClassification \<or> 0 < k_dynamicClassification"
    by simp
  show ?thesis
    using exactly_one_task_family [OF r, of False] exactly_one_task_family [OF b, of False]
      exactly_one_task_family [OF b, of True] exactly_one_task_family [OF z, of False]
    by (simp add: IsRegression_def IsBinaryClassification_def k_regression_def
        k_dynamicClassification_def)
qed

text \<open>
  Claim C10: in the default build \<^verbatim>\<open>GetVectorLength\<close> is 1 for every descriptor up to 2,
  among them \<^verbatim>\<open>k_dynamicClassification\<close> and the descriptor 1: the dynamic sentinel gets
  the length 1, and the function has no error result.
\<close>

theorem GetVectorLength_default_collapses:
  "(\<forall>d. d \<le> 2 \<longrightarrow> GetVectorLength False d = 1)
   \<and> GetVectorLength False k_dynamicClassification = 1
   \<and> GetVectorLength False k_oneScore = 1"
  by (simp add: GetVectorLength_def k_dynamicClassification_def k_oneScore_def)

theorem GetVectorLength_default_collapses_witness:
  "(- 5 :: int) \<le> 2 \<and> GetVectorLength False (- 5) = 1
   \<and> (0 :: int) \<le> 2 \<and> GetVectorLength False 0 = 1"
proof -
  have "GetVectorLength False (- 5) = 1" "GetVectorLength False 0 = 1"
    using GetVectorLength_default_collapses by auto
  then show ?thesis by simp
qed

section \<open>Properties of the bit-pack geometry\<close>

lemma CountBitsRequired_bounds:
  assumes "0 \<le> m"
  shows "m < 2 ^ CountBitsRequired m \<and> (0 < m \<longrightarrow> 2 ^ (CountBitsRequired m - 1) \<le> m)"
  using assms
proof (induction m rule: CountBitsRequired.induct)
  case (1 maxValue)
  show ?case
  proof (cases "maxValue = 0")
    case True
    then show ?thesis by simp
  next
    case False
    with "1.prems" have pos: "0 < maxValue" by simp
    have half: "maxValue sdiv 2 = maxValue div 2" using pos by (simp add: sdiv_nonneg)
    have nonneg: "0 \<le> maxValue div 2" using pos by simp
    let ?k = "CountBitsRequired (maxValue div 2)"
    have unfold: "CountBitsRequired maxValue = Suc ?k"
      using False half by (subst CountBitsRequired.simps) simp
    have IH: "maxValue div 2 < 2 ^ ?k \<and> (0 < maxValue div 2 \<longrightarrow> 2 ^ (?k - 1) \<le> maxValue div 2)"
      using "1.IH" False nonneg half by simp
    have upper: "maxValue < 2 ^ Suc ?k"
    proof -
      have "maxValue \<le> 2 * (maxValue div 2) + 1" by linarith
      moreover have "maxValue div 2 + 1 \<le> 2 ^ ?k" using IH by simp
      ultimately show ?thesis by simp
    qed
    have lower: "(2 :: int) ^ ?k \<le> maxValue"
    proof (cases "0 < maxValue div 2")
      case True
      then have "?k \<noteq> 0" by (subst CountBitsRequired.simps) simp
      then obtain j where j: "?k = Suc j" by (cases ?k) auto
      with IH True have "2 ^ j \<le> maxValue div 2" by simp
      then have "2 * 2 ^ j \<le> 2 * (maxValue div 2)" by simp
      also have "\<dots> \<le> maxValue" by linarith
      finally show ?thesis by (simp add: j)
    next
      case False
      with nonneg have z: "maxValue div 2 = 0" by simp
      then have "?k = 0" by simp
      with pos show ?thesis by simp
    qed
    from upper lower show ?thesis by (simp add: unfold)
  qed
qed

text \<open>
  Claim C5: for every non-negative \<^verbatim>\<open>maxValue\<close>, \<^verbatim>\<open>CountBitsRequired(maxValue)\<close> is the
  smallest width \<open>w\<close> with \<open>2 ^ w > maxValue\<close>, and it is 0 at 0. The function is total: its
  termination is proved with the definition, by the measure \<open>\<bar>maxValue\<bar>\<close>, which the last
  conjunct shows to decrease at each halving.
\<close>

theorem CountBitsRequired_smallest_width:
  assumes "0 \<le> maxValue"
  shows "CountBitsRequired 0 = 0
         \<and> maxValue < 2 ^ CountBitsRequired maxValue
         \<and> (\<forall>w. maxValue < 2 ^ w \<longrightarrow> CountBitsRequired maxValue \<le> w)
         \<and> (maxValue \<noteq> 0 \<longrightarrow> \<bar>maxValue sdiv 2\<bar> < \<bar>maxValue\<bar>)"
proof -
  have "CountBitsRequired maxValue \<le> w" if lt: "maxValue < 2 ^ w" for w
  proof (cases "maxValue = 0")
    case True
    then show ?thesis by simp
  next
    case False
    with assms have "2 ^ (CountBitsRequired maxValue - 1) \<le> maxValue"
      using CountBitsRequired_bounds [of maxValue] by simp
    with lt have "(2 :: int) ^ (CountBitsRequired maxValue - 1) < 2 ^ w" by linarith
    then have "CountBitsRequired maxValue - 1 < w" by simp
    then show ?thesis by simp
  qed
  moreover have "maxValue \<noteq> 0 \<longrightarrow> \<bar>maxValue sdiv 2\<bar> < \<bar>maxValue\<bar>"
    using assms by (auto simp: sdiv_nonneg)
  ultimately show ?thesis
    using CountBitsRequired_bounds [OF assms] by simp
qed

theorem CountBitsRequired_smallest_width_witness:
  "(0 :: int) \<le> 255 \<and> CountBitsRequired 255 = 8 \<and> (255 :: int) < 2 ^ 8 \<and> \<not> (255 :: int) < 2 ^ 7"
proof -
  have "CountBitsRequired 255 = 8" by code_simp
  then show ?thesis using CountBitsRequired_smallest_width [of 255] by simp
qed

lemma BitPackProgression_eval:
  "BitPackProgression k_cItemsPerBitPackMax2 = [64, 32, 21, 16, 12, 10, 9, 8, 7, 6, 5, 4, 3, 2, 1]"
  by code_simp

lemma quotients_on_progression:
  "\<forall>k \<in> set [1..64]. (64 :: int) div k \<in> set [64, 32, 21, 16, 12, 10, 9, 8, 7, 6, 5, 4, 3, 2, 1]"
  by code_simp

lemma progression_round_trip:
  "\<forall>v \<in> set [64, 32, 21, 16, 12, 10, 9, 8, 7, 6, 5, 4, 3, 2, 1]. (64 :: int) div (64 div v) = v"
  by simp

lemma progression_members:
  "set (BitPackProgression k_cItemsPerBitPackMax2)
     = {v. 0 < v \<and> (\<exists>k. 1 \<le> k \<and> v = int k_cBitsForStorageType div k)}"
  (is "?L = ?R")
proof (rule set_eqI)
  fix v :: int
  let ?P = "[64, 32, 21, 16, 12, 10, 9, 8, 7, 6, 5, 4, 3, 2, 1] :: int list"
  show "v \<in> ?L \<longleftrightarrow> v \<in> ?R"
  proof
    assume "v \<in> ?L"
    then have mem: "v \<in> set ?P" by (simp only: BitPackProgression_eval)
    then have rt: "64 div (64 div v) = v" using progression_round_trip by blast
    from mem have "0 < v" "1 \<le> 64 div v" by auto
    with rt show "v \<in> ?R" 
      by (auto simp: k_cBitsForStorageType_eq intro!: exI [of _ "64 div v"])
  next
    assume "v \<in> ?R"
    then obtain k where k: "1 \<le> k" "v = 64 div k" and pos: "0 < v"
      by (auto simp: k_cBitsForStorageType_eq)
    have "k \<le> 64"
    proof (rule ccontr)
      assume "\<not> k \<le> 64"
      then have "(64 :: int) div k = 0" using k(1) by (simp add: div_pos_pos_trivial)
      with k pos show False by simp
    qed
    with k have "k \<in> set [1..64]" by simp
    then have "64 div k \<in> set ?P" using quotients_on_progression by blast
    with k show "v \<in> ?L" by (simp only: BitPackProgression_eval)
  qed
qed

lemma ItemsBitPackedProgression_eval:
  "ItemsBitPackedProgression (of_nat k_cBitsForStorageType)
     = [64, 32, 21, 16, 12, 10, 9, 8, 7, 6, 5, 4, 3, 2, 1]"
  by code_simp

text \<open>From a positive value \<^verbatim>\<open>GetNextBitPack\<close> divides by no zero.\<close>

lemma GetNextBitPack_positive:
  assumes "0 < c"
  shows "\<exists>n. GetNextBitPack c = Some n \<and> 0 \<le> n \<and> n < c"
proof -
  have "\<exists>n. GetNextBitPack c = Some n"
  proof (cases "c = 1")
    case True
    then show ?thesis by (simp add: GetNextBitPack_def k_cItemsPerBitPackMin2_def)
  next
    case False
    have "0 \<le> int k_cBitsForStorageType div c"
      using assms by (simp add: pos_imp_zdiv_nonneg_iff)
    then have "int k_cBitsForStorageType sdiv c + 1 \<noteq> 0"
      using assms by (simp add: sdiv_nonneg)
    with assms False show ?thesis
      by (simp add: GetNextBitPack_def k_cItemsPerBitPackMin2_def checked_sdiv_def)
  qed
  then obtain n where n: "GetNextBitPack c = Some n" by blast
  with GetNextBitPack_less [OF assms n] show ?thesis by simp
qed

lemma BitPackProgression_bounds:
  "x \<in> set (BitPackProgression c) \<Longrightarrow> 0 < x \<and> x \<le> c"
proof (induction c arbitrary: x rule: BitPackProgression.induct)
  case (1 c)
  show ?case
  proof (cases "c \<le> k_cItemsPerBitPackDynamic2")
    case True
    with "1.prems" show ?thesis by (subst (asm) BitPackProgression.simps) simp
  next
    case False
    then have pos: "0 < c" by (simp add: k_cItemsPerBitPackDynamic2_def)
    show ?thesis
    proof (cases "GetNextBitPack c")
      case None
      with "1.prems" False pos show ?thesis by (subst (asm) BitPackProgression.simps) simp
    next
      case (Some n)
      have "x = c \<or> x \<in> set (BitPackProgression n)"
        using "1.prems" False Some by (subst (asm) BitPackProgression.simps) simp
      then show ?thesis
      proof
        assume "x = c" with pos show ?thesis by simp
      next
        assume "x \<in> set (BitPackProgression n)"
        then have "0 < x \<and> x \<le> n" using "1.IH" [OF False Some] by simp
        moreover have "n < c" using GetNextBitPack_less [OF pos Some] by simp
        ultimately show ?thesis by simp
      qed
    qed
  qed
qed

lemma BitPackProgression_decreasing:
  "sorted_wrt (\<lambda>a b. b < a) (BitPackProgression c)"
proof (induction c rule: BitPackProgression.induct)
  case (1 c)
  show ?case
  proof (cases "c \<le> k_cItemsPerBitPackDynamic2")
    case True
    then show ?thesis by (subst BitPackProgression.simps) simp
  next
    case False
    then have pos: "0 < c" by (simp add: k_cItemsPerBitPackDynamic2_def)
    show ?thesis
    proof (cases "GetNextBitPack c")
      case None
      with False show ?thesis by (subst BitPackProgression.simps) simp
    next
      case (Some n)
      have less: "n < c" using GetNextBitPack_less [OF pos Some] by simp
      have "\<forall>x \<in> set (BitPackProgression n). x < c"
        using BitPackProgression_bounds [of _ n] less by fastforce
      moreover have "sorted_wrt (\<lambda>a b. b < a) (BitPackProgression n)"
        using "1.IH" [OF False Some] .
      ultimately show ?thesis using False Some by (subst BitPackProgression.simps) simp
    qed
  qed
qed

text \<open>
  Claim C4: starting from the width of the storage word and applying
  \<open>next = wordWidth / (wordWidth / prev + 1)\<close>, by \<^verbatim>\<open>GetNextBitPack\<close> as well as by
  \<^verbatim>\<open>GetNextCountItemsBitPacked\<close>, gives 64, 32, 21, 16, 12, 10, 9, 8, 7, 6, 5, 4, 3, 2, 1:
  strictly decreasing, without duplicates, ending at 1, which is \<^verbatim>\<open>k_cItemsPerBitPackLast\<close>
  (its successor is the dynamic value 0), and its members are exactly the positive values of \<open>wordWidth div k\<close> for
  \<open>k \<ge> 1\<close>.
\<close>

theorem canonical_progression:
  "BitPackProgression k_cItemsPerBitPackMax2
     = [64, 32, 21, 16, 12, 10, 9, 8, 7, 6, 5, 4, 3, 2, 1]
   \<and> ItemsBitPackedProgression (of_nat k_cBitsForStorageType)
     = [64, 32, 21, 16, 12, 10, 9, 8, 7, 6, 5, 4, 3, 2, 1]
   \<and> sorted_wrt (\<lambda>a b. b < a) (BitPackProgression k_cItemsPerBitPackMax2)
   \<and> distinct (BitPackProgression k_cItemsPerBitPackMax2)
   \<and> hd (BitPackProgression k_cItemsPerBitPackMax2) = int k_cBitsForStorageType
   \<and> last (BitPackProgression k_cItemsPerBitPackMax2) = 1
   \<and> k_cItemsPerBitPackLast = 1
   \<and> GetNextBitPack 1 = Some k_cItemsPerBitPackDynamic2
   \<and> set (BitPackProgression k_cItemsPerBitPackMax2)
     = {v. 0 < v \<and> (\<exists>k. 1 \<le> k \<and> v = int k_cBitsForStorageType div k)}"
proof -
  note ev = BitPackProgression_eval
  have "GetNextBitPack 1 = Some k_cItemsPerBitPackDynamic2"
    by (simp add: GetNextBitPack_def k_cItemsPerBitPackMin2_def)
  moreover have "k_cItemsPerBitPackLast = 1"
    by (simp add: k_cItemsPerBitPackLast_def k_cItemsPerBitPackMax2_def
        k_cItemsPerBitPackMin2_def)
  moreover have "distinct (BitPackProgression k_cItemsPerBitPackMax2)" by (simp add: ev)
  moreover have "hd (BitPackProgression k_cItemsPerBitPackMax2) = int k_cBitsForStorageType"
    by (simp add: ev k_cBitsForStorageType_eq)
  moreover have "last (BitPackProgression k_cItemsPerBitPackMax2) = 1" by (simp add: ev)
  ultimately show ?thesis
    using ev ItemsBitPackedProgression_eval BitPackProgression_decreasing progression_members
    by simp
qed

text \<open>
  Claim C6: for every \<open>itemsPerWord\<close> on the progression, \<^verbatim>\<open>GetCountBits\<close> returns
  \<open>bitsPerItem\<close> with \<open>bitsPerItem * itemsPerWord \<le> wordWidth\<close> (as an exact product), and
  \<open>wordWidth / bitsPerItem = itemsPerWord\<close>.
\<close>

theorem bit_pack_round_trip:
  "\<forall>p \<in> set (BitPackProgression k_cItemsPerBitPackMax2).
     \<exists>b. GetCountBits (static_cast_size_t p) = Some b
       \<and> unat b * unat (static_cast_size_t p) \<le> k_cBitsForStorageType
       \<and> checked_div (of_nat k_cBitsForStorageType) b = Some (static_cast_size_t p)"
  by (simp add: BitPackProgression_eval GetCountBits_def checked_div_def static_cast_size_t_def
      k_cBitsForStorageType_eq)

theorem bit_pack_round_trip_witness:
  "21 \<in> set (BitPackProgression k_cItemsPerBitPackMax2)
   \<and> GetCountBits 21 = Some 3
   \<and> unat (3 :: size_t) * unat (21 :: size_t) \<le> k_cBitsForStorageType
   \<and> checked_div (of_nat k_cBitsForStorageType) 3 = Some 21"
proof -
  have mem: "21 \<in> set (BitPackProgression k_cItemsPerBitPackMax2)"
    by (simp add: BitPackProgression_eval)
  have b: "GetCountBits 21 = Some 3"
    by (simp add: GetCountBits_def checked_div_def k_cBitsForStorageType_eq)
  from bit_pack_round_trip mem obtain b where
    "GetCountBits (static_cast_size_t 21) = Some b
       \<and> unat b * unat (static_cast_size_t 21) \<le> k_cBitsForStorageType
       \<and> checked_div (of_nat k_cBitsForStorageType) b = Some (static_cast_size_t 21)"
    by blast
  with b mem show ?thesis by (auto simp: static_cast_size_t_def)
qed

section \<open>Properties of the integer conversion check\<close>

lemma convert_representable:
  assumes "representable C x"
  shows "convert C x = Some x"
proof (cases "is_signed C")
  case True
  with assms show ?thesis by (simp add: convert_def)
next
  case False
  with assms have "0 \<le> x" "x < 2 ^ width C"
    by (simp_all add: representable_def numeric_limits_lowest_def numeric_limits_max_def)
  then have "x mod 2 ^ width C = x" by simp
  with False show ?thesis by (simp add: convert_def)
qed

lemma less_eq_cpp_exact:
  assumes "representable (usual_arithmetic_conversions A B) a"
    and "representable (usual_arithmetic_conversions A B) b"
  shows "less_eq_cpp A a B b = Some (a \<le> b)"
  using assms by (simp add: less_eq_cpp_def convert_representable)

lemma lowest_nonpos: "numeric_limits_lowest T \<le> 0"
  by (simp add: numeric_limits_lowest_def)

lemma max_common:
  assumes "standard_integral A" and "standard_integral B"
  shows "numeric_limits_max A \<le> numeric_limits_max (usual_arithmetic_conversions A B)
         \<and> numeric_limits_max B \<le> numeric_limits_max (usual_arithmetic_conversions A B)"
proof (cases A)
  case A: (Integral sa wa)
  show ?thesis
  proof (cases B)
    case B: (Integral sb wb)
    from assms A B show ?thesis
      by (auto simp: standard_integral_def usual_arithmetic_conversions_def
          integral_promotion_def int_type_def numeric_limits_max_def Let_def)
  qed
qed

lemma lowest_common:
  assumes "standard_integral A" and "standard_integral B"
    and "is_signed A" and "is_signed B"
  shows "numeric_limits_lowest (usual_arithmetic_conversions A B) \<le> numeric_limits_lowest A
         \<and> numeric_limits_lowest (usual_arithmetic_conversions A B) \<le> numeric_limits_lowest B"
proof (cases A)
  case A: (Integral sa wa)
  show ?thesis
  proof (cases B)
    case B: (Integral sb wb)
    from assms A B show ?thesis
      by (auto simp: standard_integral_def usual_arithmetic_conversions_def
          integral_promotion_def int_type_def numeric_limits_lowest_def Let_def)
  qed
qed

text \<open>Two signed operands are compared by their values.\<close>

lemma less_eq_cpp_signed:
  assumes "standard_integral A" and "standard_integral B"
    and "is_signed A" and "is_signed B"
    and "representable A a" and "representable B b"
  shows "less_eq_cpp A a B b = Some (a \<le> b)"
proof (rule less_eq_cpp_exact)
  let ?C = "usual_arithmetic_conversions A B"
  from max_common [OF assms(1,2)] lowest_common [OF assms(1-4)] assms(5,6)
  show "representable ?C a" and "representable ?C b"
    by (simp_all add: representable_def)
qed

text \<open>Two non-negative operands are compared by their values, whatever their types.\<close>

lemma less_eq_cpp_nonneg:
  assumes "standard_integral A" and "standard_integral B"
    and "0 \<le> a" and "0 \<le> b"
    and "representable A a" and "representable B b"
  shows "less_eq_cpp A a B b = Some (a \<le> b)"
proof (rule less_eq_cpp_exact)
  let ?C = "usual_arithmetic_conversions A B"
  have "numeric_limits_lowest ?C \<le> 0" by (rule lowest_nonpos)
  with max_common [OF assms(1,2)] assms(3-6)
  show "representable ?C a" and "representable ?C b"
    by (simp_all add: representable_def)
qed

lemma representable_limits:
  "representable T (numeric_limits_lowest T)" "representable T (numeric_limits_max T)"
  by (simp_all add: representable_def numeric_limits_lowest_def numeric_limits_max_def)

lemma max_nonneg: "0 \<le> numeric_limits_max T"
  by (simp add: numeric_limits_max_def)

lemma standard_int_type: "standard_integral int_type" "is_signed int_type"
  "representable int_type 0"
  by (simp_all add: standard_integral_def int_type_def representable_def
      numeric_limits_lowest_def numeric_limits_max_def)

lemma and_then_Some: "and_then (Some p) (Some q) = Some (p \<and> q)"
  by (cases p) (simp_all add: and_then_def)

lemma IsNumberConvertable_value:
  assumes To: "standard_integral TTo" and From: "standard_integral TFrom"
    and x: "representable TFrom x"
  shows "IsNumberConvertable TTo TFrom x = Some (representable TTo x)"
proof -
  note lim = representable_limits [of TTo]
  consider (ss) "is_signed TTo" "is_signed TFrom"
    | (su) "is_signed TTo" "\<not> is_signed TFrom"
    | (us) "\<not> is_signed TTo" "is_signed TFrom"
    | (uu) "\<not> is_signed TTo" "\<not> is_signed TFrom"
    by blast
  then show ?thesis
  proof cases
    case ss
    have "less_eq_cpp TTo (numeric_limits_lowest TTo) TFrom x
            = Some (numeric_limits_lowest TTo \<le> x)"
      using To From ss lim(1) x by (intro less_eq_cpp_signed)
    moreover have "less_eq_cpp TFrom x TTo (numeric_limits_max TTo)
            = Some (x \<le> numeric_limits_max TTo)"
      using To From ss lim(2) x by (intro less_eq_cpp_signed)
    ultimately show ?thesis
      using ss by (simp add: IsNumberConvertable_def and_then_Some representable_def)
  next
    case su
    from su x have nonneg: "0 \<le> x"
      by (simp add: representable_def numeric_limits_lowest_def)
    have "less_eq_cpp TFrom x TTo (numeric_limits_max TTo)
            = Some (x \<le> numeric_limits_max TTo)"
      using To From nonneg max_nonneg lim(2) x by (intro less_eq_cpp_nonneg)
    moreover have "numeric_limits_lowest TTo \<le> x"
      using lowest_nonpos [of TTo] nonneg by simp
    ultimately show ?thesis
      using su by (simp add: IsNumberConvertable_def representable_def)
  next
    case us
    have zero: "less_eq_cpp int_type 0 TFrom x = Some (0 \<le> x)"
      using From us x standard_int_type by (intro less_eq_cpp_signed)
    have low: "numeric_limits_lowest TTo = 0"
      using us by (simp add: numeric_limits_lowest_def)
    show ?thesis
    proof (cases "0 \<le> x")
      case True
      have "less_eq_cpp TFrom x TTo (numeric_limits_max TTo)
              = Some (x \<le> numeric_limits_max TTo)"
        using To From True max_nonneg lim(2) x by (intro less_eq_cpp_nonneg)
      with zero True low us show ?thesis
        by (simp add: IsNumberConvertable_def and_then_def representable_def)
    next
      case False
      with zero low us show ?thesis
        by (simp add: IsNumberConvertable_def and_then_def representable_def)
    qed
  next
    case uu
    from uu x have nonneg: "0 \<le> x"
      by (simp add: representable_def numeric_limits_lowest_def)
    have "less_eq_cpp TFrom x TTo (numeric_limits_max TTo)
            = Some (x \<le> numeric_limits_max TTo)"
      using To From nonneg max_nonneg lim(2) x by (intro less_eq_cpp_nonneg)
    moreover have "numeric_limits_lowest TTo = 0"
      using uu by (simp add: numeric_limits_lowest_def)
    ultimately show ?thesis
      using uu nonneg by (simp add: IsNumberConvertable_def representable_def)
  qed
qed

text \<open>The two particular cases of the claim.\<close>

lemma negative_not_convertable_to_unsigned:
  assumes "standard_integral TTo" and "standard_integral TFrom" and "representable TFrom x"
    and "\<not> is_signed TTo" and "x < 0"
  shows "IsNumberConvertable TTo TFrom x = Some False"
proof -
  have "numeric_limits_lowest TTo = 0" using assms(4) by (simp add: numeric_limits_lowest_def)
  with assms(5) have "\<not> representable TTo x" by (simp add: representable_def)
  moreover have "IsNumberConvertable TTo TFrom x = Some (representable TTo x)"
    using assms(1-3) by (rule IsNumberConvertable_value)
  ultimately show ?thesis by simp
qed

lemma unsigned_to_signed_upper_bound_only:
  assumes "is_signed TTo" and "\<not> is_signed TFrom"
  shows "IsNumberConvertable TTo TFrom x = less_eq_cpp TFrom x TTo (numeric_limits_max TTo)"
  using assms by (simp add: IsNumberConvertable_def)

text \<open>
  Claim C2: for every pair of integer types of 8 to 64 bits, signed or unsigned, and every
  value \<open>x\<close> of \<^verbatim>\<open>TFrom\<close>, \<^verbatim>\<open>IsNumberConvertable<TTo, TFrom>(x)\<close> is true if and only if
  \<open>x\<close> lies within \<open>[lowest(TTo), max(TTo)]\<close>, and every comparison it evaluates is a
  comparison of the values themselves (the result is never \<open>None\<close>). In particular a
  negative value is not convertible to an unsigned type; and for an unsigned \<^verbatim>\<open>TFrom\<close> and a
  signed \<^verbatim>\<open>TTo\<close> the function is the upper-bound comparison alone.
\<close>

theorem IsNumberConvertable_exact:
  assumes "standard_integral TTo" and "standard_integral TFrom"
    and "representable TFrom x"
  shows "IsNumberConvertable TTo TFrom x
           = Some (numeric_limits_lowest TTo \<le> x \<and> x \<le> numeric_limits_max TTo)
         \<and> (\<not> is_signed TTo \<and> x < 0 \<longrightarrow> IsNumberConvertable TTo TFrom x = Some False)
         \<and> (is_signed TTo \<and> \<not> is_signed TFrom \<longrightarrow>
              IsNumberConvertable TTo TFrom x
                = less_eq_cpp TFrom x TTo (numeric_limits_max TTo))"
  using IsNumberConvertable_value [OF assms]
    negative_not_convertable_to_unsigned [OF assms]
    unsigned_to_signed_upper_bound_only [of TTo TFrom x]
  by (simp add: representable_def)

theorem IsNumberConvertable_exact_witness:
  "standard_integral (Integral False 8) \<and> standard_integral (Integral True 64)
   \<and> representable (Integral True 64) (- 1) \<and> representable (Integral True 64) 200
   \<and> representable (Integral True 64) 256
   \<and> IsNumberConvertable (Integral False 8) (Integral True 64) (- 1) = Some False
   \<and> IsNumberConvertable (Integral False 8) (Integral True 64) 200 = Some True
   \<and> IsNumberConvertable (Integral False 8) (Integral True 64) 256 = Some False"
proof -
  have t: "standard_integral (Integral False 8)" "standard_integral (Integral True 64)"
    by (simp_all add: standard_integral_def)
  have r: "representable (Integral True 64) (- 1)" "representable (Integral True 64) 200"
    "representable (Integral True 64) 256"
    by (simp_all add: representable_def numeric_limits_lowest_def numeric_limits_max_def)
  show ?thesis
    using t r IsNumberConvertable_exact [OF t r(1)] IsNumberConvertable_exact [OF t r(2)]
      IsNumberConvertable_exact [OF t r(3)]
    by (simp add: numeric_limits_lowest_def numeric_limits_max_def)
qed

section \<open>Properties of the string comparison\<close>

lemma SkipWhitespace_dropWhile: "SkipWhitespace s = dropWhile is_whitespace s"
  by (induction s) simp_all

lemma of_char_to_lower:
  "(of_char (to_lower c) :: nat) =
     (if 65 \<le> (of_char c :: nat) \<and> (of_char c :: nat) \<le> 90 then of_char c + 32 else of_char c)"
  by (simp add: to_lower_def)

lemma to_lower_NUL [simp]: "to_lower c = NUL \<longleftrightarrow> c = NUL"
proof -
  have "to_lower c = NUL \<longleftrightarrow> (of_char (to_lower c) :: nat) = of_char NUL"
    by (simp only: of_char_eq_iff)
  also have "\<dots> \<longleftrightarrow> (of_char c :: nat) = of_char NUL"
    by (simp add: of_char_to_lower NUL_def)
  also have "\<dots> \<longleftrightarrow> c = NUL" by (simp only: of_char_eq_iff)
  finally show ?thesis .
qed

lemma to_lower_NUL_eq [simp]: "to_lower NUL = to_lower c \<longleftrightarrow> c = NUL"
proof -
  have "to_lower NUL = NUL" using to_lower_NUL [of NUL] by simp
  then have "(to_lower NUL = to_lower c) = (NUL = to_lower c)" by (simp only:)
  also have "\<dots> = (to_lower c = NUL)" by (rule eq_commute)
  also have "\<dots> = (c = NUL)" by (rule to_lower_NUL)
  finally show ?thesis .
qed

lemma is_whitespace_to_lower [simp]: "is_whitespace (to_lower c) = is_whitespace c"
  by (auto simp: is_whitespace_def of_char_to_lower)

lemma to_lower_idem [simp]: "to_lower (to_lower c) = to_lower c"
proof (rule of_char_eqI [where 'a = nat])
  show "(of_char (to_lower (to_lower c)) :: nat) = of_char (to_lower c)"
    by (simp add: of_char_to_lower)
qed

lemma deref_Cons [simp]: "deref (c # s) = c" and deref_Nil [simp]: "deref [] = NUL"
  by (simp_all add: deref_def)

lemma c_str_simps [simp]:
  "c_str [] = []"
  "c_str (c # s) = (if c = NUL then [] else c # c_str s)"
  by (simp_all add: c_str_def NUL_def)

lemma CompareLabel_eq:
  "CompareLabel sMain sLabel =
     (if map to_lower (take (length (c_str sLabel)) sMain) = map to_lower (c_str sLabel)
      then Some (drop (length (c_str sLabel)) sMain) else None)"
proof (induction sLabel arbitrary: sMain)
  case Nil
  show ?case by simp
next
  case (Cons labelChar sLabel)
  show ?case
  proof (cases "labelChar = NUL")
    case True
    then show ?thesis by simp
  next
    case False
    show ?thesis
    proof (cases sMain)
      case Nil
      with False show ?thesis by simp
    next
      case (Cons mainChar rest)
      with False Cons.IH [of rest] show ?thesis by simp
    qed
  qed
qed

lemma SkipWhitespace_stops: "\<not> is_whitespace (deref (SkipWhitespace s))"
  by (induction s) (simp_all add: is_whitespace_def NUL_def)

lemma to_lower_same_whitespace:
  assumes "to_lower x = to_lower y"
  shows "is_whitespace x = is_whitespace y"
proof -
  have "is_whitespace x = is_whitespace (to_lower x)" by simp
  also have "\<dots> = is_whitespace (to_lower y)" by (simp only: assms)
  also have "\<dots> = is_whitespace y" by simp
  finally show ?thesis .
qed

lemma to_lower_same_NUL:
  assumes "to_lower x = to_lower y"
  shows "(x = NUL) = (y = NUL)"
  using assms to_lower_NUL [of x] to_lower_NUL [of y] by simp

lemma dropWhile_whitespace_lower:
  assumes "map to_lower s = map to_lower t"
  shows "map to_lower (dropWhile is_whitespace s) = map to_lower (dropWhile is_whitespace t)"
  using assms
proof (induction s arbitrary: t)
  case Nil
  then show ?case by simp
next
  case (Cons x s)
  then obtain y t' where t: "t = y # t'" by (cases t) auto
  with Cons.prems have xy: "to_lower x = to_lower y"
    and rest: "map to_lower s = map to_lower t'" by simp_all
  from to_lower_same_whitespace [OF xy] Cons.IH [OF rest] xy rest t show ?case by simp
qed

lemma c_str_lower:
  assumes "map to_lower s = map to_lower t"
  shows "map to_lower (c_str s) = map to_lower (c_str t)"
  using assms
proof (induction s arbitrary: t)
  case Nil
  then show ?case by simp
next
  case (Cons x s)
  then obtain y t' where t: "t = y # t'" by (cases t) auto
  with Cons.prems have xy: "to_lower x = to_lower y"
    and rest: "map to_lower s = map to_lower t'" by simp_all
  from to_lower_same_NUL [OF xy] Cons.IH [OF rest] xy t show ?case by simp
qed

lemma IsStringEqualsCaseInsensitive_eq:
  "IsStringEqualsCaseInsensitive sMain sLabel =
     (if map to_lower (take (length (c_str sLabel)) (dropWhile is_whitespace sMain))
          = map to_lower (c_str sLabel)
      then Some (dropWhile is_whitespace
                   (drop (length (c_str sLabel)) (dropWhile is_whitespace sMain)))
      else None)"
  by (simp add: IsStringEqualsCaseInsensitive_def CompareLabel_eq SkipWhitespace_dropWhile)

lemma match_depends_on_lower_case:
  assumes m: "map to_lower sMain' = map to_lower sMain"
    and l: "map to_lower sLabel' = map to_lower sLabel"
  shows "(IsStringEqualsCaseInsensitive sMain' sLabel' = None)
       = (IsStringEqualsCaseInsensitive sMain sLabel = None)"
proof -
  have lab: "map to_lower (c_str sLabel') = map to_lower (c_str sLabel)"
    using l by (rule c_str_lower)
  then have "length (map to_lower (c_str sLabel')) = length (map to_lower (c_str sLabel))"
    by (simp only:)
  then have len: "length (c_str sLabel') = length (c_str sLabel)"
    by (simp only: length_map)
  have "map to_lower (dropWhile is_whitespace sMain')
      = map to_lower (dropWhile is_whitespace sMain)"
    using m by (rule dropWhile_whitespace_lower)
  then have "map to_lower (take (length (c_str sLabel)) (dropWhile is_whitespace sMain'))
      = map to_lower (take (length (c_str sLabel)) (dropWhile is_whitespace sMain))"
    by (simp only: take_map [symmetric])
  with lab len show ?thesis by (simp add: IsStringEqualsCaseInsensitive_eq)
qed

text \<open>
  The tests of the source agree with the ASCII table: its whitespace test accepts exactly
  the six whitespace characters, and its conversion of \<^verbatim>\<open>'A'\<close> to \<^verbatim>\<open>'Z'\<close> by
  \<^verbatim>\<open>'a' - 'A'\<close> sends each capital to its small letter and nothing else anywhere.
\<close>

lemma letter_pairs:
  "\<forall>(u, l) \<in> set (zip ascii_upper_case ascii_lower_case).
     65 \<le> (of_char u :: nat) \<and> (of_char u :: nat) \<le> 90 \<and> (of_char l :: nat) = of_char u + 32"
  by (simp add: ascii_upper_case_def ascii_lower_case_def)

lemma upper_case_codes:
  "\<forall>n \<in> set [65..<91]. char_of (n :: nat) \<in> set ascii_upper_case"
  by code_simp

lemma letter_pair:
  assumes "(u, l) \<in> set (zip ascii_upper_case ascii_lower_case)"
  shows "65 \<le> (of_char u :: nat)" and "(of_char u :: nat) \<le> 90"
    and "(of_char l :: nat) = of_char u + 32"
proof -
  from letter_pairs assms
  have "case (u, l) of (u, l) \<Rightarrow>
          65 \<le> (of_char u :: nat) \<and> (of_char u :: nat) \<le> 90
          \<and> (of_char l :: nat) = of_char u + 32"
    by (rule bspec)
  then show "65 \<le> (of_char u :: nat)" and "(of_char u :: nat) \<le> 90"
    and "(of_char l :: nat) = of_char u + 32"
    by simp_all
qed

lemma upper_case_has_pair:
  assumes "c \<in> set ascii_upper_case"
  shows "\<exists>l. (c, l) \<in> set (zip ascii_upper_case ascii_lower_case)"
proof -
  have "length ascii_upper_case = length ascii_lower_case"
    by (simp add: ascii_upper_case_def ascii_lower_case_def)
  from in_set_impl_in_set_zip1 [OF this assms] show ?thesis by blast
qed

lemma upper_case_iff:
  "c \<in> set ascii_upper_case \<longleftrightarrow> 65 \<le> (of_char c :: nat) \<and> (of_char c :: nat) \<le> 90"
proof
  assume "c \<in> set ascii_upper_case"
  then obtain l where "(c, l) \<in> set (zip ascii_upper_case ascii_lower_case)"
    using upper_case_has_pair by blast
  then show "65 \<le> (of_char c :: nat) \<and> (of_char c :: nat) \<le> 90"
    using letter_pair(1,2) by blast
next
  assume "65 \<le> (of_char c :: nat) \<and> (of_char c :: nat) \<le> 90"
  then have "(of_char c :: nat) \<in> {65..<91}" by auto
  then have "(of_char c :: nat) \<in> set [65..<91]" by (simp only: set_upt)
  with upper_case_codes have "char_of (of_char c :: nat) \<in> set ascii_upper_case"
    by (rule bspec)
  then show "c \<in> set ascii_upper_case" by (simp only: char_of_char)
qed

lemma to_lower_ascii_case_fold: "to_lower c = ascii_case_fold c"
proof (cases "map_of (zip ascii_upper_case ascii_lower_case) c")
  case None
  have "c \<notin> set ascii_upper_case"
  proof
    assume "c \<in> set ascii_upper_case"
    then obtain l where "(c, l) \<in> set (zip ascii_upper_case ascii_lower_case)"
      using upper_case_has_pair by blast
    then have "c \<in> fst ` set (zip ascii_upper_case ascii_lower_case)" by force
    with None show False by (simp add: map_of_eq_None_iff)
  qed
  with upper_case_iff [of c]
  have "\<not> (65 \<le> (of_char c :: nat) \<and> (of_char c :: nat) \<le> 90)"
    by blast
  then have "to_lower c = c" by (auto simp: to_lower_def)
  with None show ?thesis by (simp add: ascii_case_fold_def)
next
  case (Some l)
  then have pair: "(c, l) \<in> set (zip ascii_upper_case ascii_lower_case)"
    by (rule map_of_SomeD)
  have "(of_char (to_lower c) :: nat) = of_char l"
    using letter_pair [OF pair] by (simp add: of_char_to_lower)
  then have "to_lower c = l" by (simp only: of_char_eq_iff)
  with Some show ?thesis by (simp add: ascii_case_fold_def)
qed

lemma is_whitespace_ascii_whitespace: "is_whitespace c = (c \<in> ascii_whitespace)"
proof -
  have "(c \<in> ascii_whitespace) = ((of_char c :: nat) \<in> of_char ` ascii_whitespace)"
    using inj_of_char [where 'a = nat] by (simp add: inj_image_mem_iff)
  also have "(of_char ` ascii_whitespace :: nat set) = {32, 9, 10, 11, 12, 13}"
    by (simp add: ascii_whitespace_def)
  also have "((of_char c :: nat) \<in> {32, 9, 10, 11, 12, 13})
      = (32 = (of_char c :: nat) \<or> 9 \<le> (of_char c :: nat) \<and> (of_char c :: nat) \<le> 13)"
    by auto
  finally show ?thesis by (simp add: is_whitespace_def)
qed

lemma to_lower_fold_fun: "to_lower = ascii_case_fold"
  by (rule ext) (rule to_lower_ascii_case_fold)

lemma is_whitespace_fun: "is_whitespace = (\<lambda>c. c \<in> ascii_whitespace)"
  by (rule ext) (rule is_whitespace_ascii_whitespace)

lemma IsStringEqualsCaseInsensitive_spec:
  "IsStringEqualsCaseInsensitive sMain sLabel =
     (if equal_ignoring_ascii_case
           (take (length (c_str sLabel)) (skip_ascii_whitespace sMain)) (c_str sLabel)
      then Some (skip_ascii_whitespace
                   (drop (length (c_str sLabel)) (skip_ascii_whitespace sMain)))
      else None)"
  using IsStringEqualsCaseInsensitive_eq [of sMain sLabel]
  unfolding to_lower_fold_fun is_whitespace_fun equal_ignoring_ascii_case_def
    skip_ascii_whitespace_def .

lemma match_ignores_ascii_case:
  assumes "equal_ignoring_ascii_case sMain' sMain"
    and "equal_ignoring_ascii_case sLabel' sLabel"
  shows "(IsStringEqualsCaseInsensitive sMain' sLabel' = None)
       = (IsStringEqualsCaseInsensitive sMain sLabel = None)"
  using assms match_depends_on_lower_case [of sMain' sMain sLabel' sLabel]
  unfolding to_lower_fold_fun equal_ignoring_ascii_case_def by blast

lemma skip_ascii_whitespace_stops:
  assumes "skip_ascii_whitespace s = c # cs"
  shows "c \<notin> ascii_whitespace"
  using assms hd_dropWhile [of "\<lambda>c. c \<in> ascii_whitespace" s]
  by (simp add: skip_ascii_whitespace_def)

text \<open>
  Claim C9: \<^verbatim>\<open>IsStringEqualsCaseInsensitive(sMain, sLabel)\<close> returns a non-null pointer if
  and only if \<^verbatim>\<open>sMain\<close>, after its leading whitespace, begins with the characters of
  \<^verbatim>\<open>sLabel\<close>, compared without regard to the case of ASCII letters; the pointer returned is
  then at the first character after the match that is not whitespace; changing the case
  of letters in either string does not change whether it matches, and \<^verbatim>\<open>"LOG_LOSS"\<close>
  matches the label \<^verbatim>\<open>"log_loss"\<close> as \<^verbatim>\<open>"log_loss"\<close> does. Whitespace and letter case are
  those of the ASCII table (\<open>ascii_whitespace\<close>, \<open>equal_ignoring_ascii_case\<close>), not the
  tests of the source.
\<close>

theorem IsStringEqualsCaseInsensitive_matches:
  "(IsStringEqualsCaseInsensitive sMain sLabel \<noteq> None
      \<longleftrightarrow> equal_ignoring_ascii_case
            (take (length (c_str sLabel)) (skip_ascii_whitespace sMain)) (c_str sLabel))
   \<and> (\<forall>r. IsStringEqualsCaseInsensitive sMain sLabel = Some r \<longrightarrow>
          r = skip_ascii_whitespace
                (drop (length (c_str sLabel)) (skip_ascii_whitespace sMain))
          \<and> (\<forall>c cs. r = c # cs \<longrightarrow> c \<notin> ascii_whitespace))
   \<and> (\<forall>sMain' sLabel'.
          equal_ignoring_ascii_case sMain' sMain \<and> equal_ignoring_ascii_case sLabel' sLabel
          \<longrightarrow> (IsStringEqualsCaseInsensitive sMain' sLabel' = None)
              = (IsStringEqualsCaseInsensitive sMain sLabel = None))
   \<and> IsStringEqualsCaseInsensitive ''LOG_LOSS'' ''log_loss'' = Some []
   \<and> IsStringEqualsCaseInsensitive ''log_loss'' ''log_loss'' = Some []"
proof (intro conjI allI impI)
  show "IsStringEqualsCaseInsensitive sMain sLabel \<noteq> None
      \<longleftrightarrow> equal_ignoring_ascii_case
            (take (length (c_str sLabel)) (skip_ascii_whitespace sMain)) (c_str sLabel)"
    by (simp add: IsStringEqualsCaseInsensitive_spec)
next
  fix r
  assume r: "IsStringEqualsCaseInsensitive sMain sLabel = Some r"
  then show eq: "r = skip_ascii_whitespace
                (drop (length (c_str sLabel)) (skip_ascii_whitespace sMain))"
    by (simp add: IsStringEqualsCaseInsensitive_spec split: if_splits)
  fix c cs
  assume "r = c # cs"
  with eq show "c \<notin> ascii_whitespace"
    using skip_ascii_whitespace_stops by metis
next
  fix sMain' sLabel'
  assume "equal_ignoring_ascii_case sMain' sMain \<and> equal_ignoring_ascii_case sLabel' sLabel"
  then show "(IsStringEqualsCaseInsensitive sMain' sLabel' = None)
           = (IsStringEqualsCaseInsensitive sMain sLabel = None)"
    by (intro match_ignores_ascii_case) simp_all
next
  show "IsStringEqualsCaseInsensitive ''LOG_LOSS'' ''log_loss'' = Some []"
    by code_simp
next
  show "IsStringEqualsCaseInsensitive ''log_loss'' ''log_loss'' = Some []"
    by code_simp
qed

theorem IsStringEqualsCaseInsensitive_matches_witness:
  "IsStringEqualsCaseInsensitive (CHR 0x09 # '' Rmse : p'') ''rmse'' = Some '': p''
   \<and> CHR '':'' \<notin> ascii_whitespace
   \<and> equal_ignoring_ascii_case (CHR 0x09 # '' RMSE : p'') (CHR 0x09 # '' Rmse : p'')
   \<and> equal_ignoring_ascii_case ''RMSE'' ''rmse''
   \<and> IsStringEqualsCaseInsensitive (CHR 0x09 # '' RMSE : p'') ''RMSE'' \<noteq> None
   \<and> IsStringEqualsCaseInsensitive ''rms'' ''rmse'' = None
   \<and> \<not> equal_ignoring_ascii_case
         (take (length (c_str ''rmse'')) (skip_ascii_whitespace ''rms'')) (c_str ''rmse'')"
proof -
  let ?m = "CHR 0x09 # '' Rmse : p''"
  have a: "IsStringEqualsCaseInsensitive ?m ''rmse'' = Some '': p''"
    by code_simp
  have b: "equal_ignoring_ascii_case (CHR 0x09 # '' RMSE : p'') ?m"
    "equal_ignoring_ascii_case ''RMSE'' ''rmse''"
    by code_simp+
  have c: "IsStringEqualsCaseInsensitive ''rms'' ''rmse'' = None"
    by code_simp
  note inst = IsStringEqualsCaseInsensitive_matches [of ?m "''rmse''"]
  from inst a have d: "CHR '':'' \<notin> ascii_whitespace" by blast
  from inst b
  have "(IsStringEqualsCaseInsensitive (CHR 0x09 # '' RMSE : p'') ''RMSE'' = None)
      = (IsStringEqualsCaseInsensitive ?m ''rmse'' = None)"
    by blast
  with a have e: "IsStringEqualsCaseInsensitive (CHR 0x09 # '' RMSE : p'') ''RMSE'' \<noteq> None"
    by simp
  from IsStringEqualsCaseInsensitive_matches [of "''rms''" "''rmse''"] c
  have f: "\<not> equal_ignoring_ascii_case
         (take (length (c_str ''rmse'')) (skip_ascii_whitespace ''rms'')) (c_str ''rmse'')"
    by blast
  from a b c d e f show ?thesis by (intro conjI)
qed

end
